theory Spec2Isabelle
  imports Main "HOL-Library.Stream"
begin

section \<open>The board (computer.go, lines 9-17)\<close>

text \<open>
  The source declares \<^verbatim>\<open>const (Rows = 6; Columns = 7; Empty = 0; Player = 1; Computer = 2)\<close>
  and \<^verbatim>\<open>type GameBoard [Rows][Columns]int\<close>. A cell is a Go \<^verbatim>\<open>int\<close>; nothing in the
  code restricts it to the three constants, so a cell is an \<open>int\<close> here too. No
  arithmetic is done on cells, only comparison, so the width of the machine integer
  plays no role.

  A fixed-size Go array has a value at every index in range and no other index. The
  board is modelled as a total map from row and column to the cell. The functions below
  read and write it only at rows below \<open>Rows\<close> and columns below \<open>Columns\<close>; the one
  place where the source can index outside the array (\<^verbatim>\<open>dropPiece\<close> with a column that
  is not in 0..6) is the run-time panic \<open>IndexOutOfRange\<close> of the model.
\<close>

definition Rows :: nat where [simp]: "Rows = 6"

definition Columns :: nat where [simp]: "Columns = 7"

definition Empty :: int where [simp]: "Empty = 0"

definition Player :: int where [simp]: "Player = 1"

definition Computer :: int where [simp]: "Computer = 2"

type_synonym GameBoard = "nat \<Rightarrow> nat \<Rightarrow> int"

datatype error = IndexOutOfRange | IntnInvalidArgument

section \<open>The static evaluator (computer.go, lines 19-93)\<close>

text \<open>
  \<^verbatim>\<open>evaluateSegment\<close> walks over the cells of the slice once; a cell equal to \<open>player\<close>
  counts for the player, and only otherwise is it compared with \<open>Empty\<close>.
\<close>

fun countCells :: "int list \<Rightarrow> int \<Rightarrow> nat \<times> nat \<Rightarrow> nat \<times> nat" where
  "countCells [] player (countPlayer, countEmpty) = (countPlayer, countEmpty)"
| "countCells (cell # segment) player (countPlayer, countEmpty) =
     (if cell = player then countCells segment player (countPlayer + 1, countEmpty)
      else if cell = Empty then countCells segment player (countPlayer, countEmpty + 1)
      else countCells segment player (countPlayer, countEmpty))"

definition evaluateSegment :: "int list \<Rightarrow> int \<Rightarrow> int" where
  "evaluateSegment segment player =
     (case countCells segment player (0, 0) of (countPlayer, countEmpty) \<Rightarrow>
        if countPlayer = 4 then 100
        else if countPlayer = 3 \<and> countEmpty = 1 then 10
        else if countPlayer = 2 \<and> countEmpty = 2 then 5
        else 0)"

text \<open>
  The four pairs of nested \<^verbatim>\<open>for\<close> loops of \<^verbatim>\<open>evaluateLines\<close>, each adding to the
  running \<open>score\<close>. \<^verbatim>\<open>for row := a; row < b; row++\<close> is a left fold over \<open>[a..<b]\<close>.
  The scores are bounded by 69 * 100, so the Go \<^verbatim>\<open>int\<close> never wraps.
\<close>

definition evaluateLines :: "GameBoard \<Rightarrow> int \<Rightarrow> int" where
  "evaluateLines board player =
     (let score = 0;
          score = foldl (\<lambda>score row. foldl (\<lambda>score col.
                    score + evaluateSegment
                      [board row col, board row (col + 1), board row (col + 2), board row (col + 3)] player)
                    score [0..<Columns - 3]) score [0..<Rows];
          score = foldl (\<lambda>score col. foldl (\<lambda>score row.
                    score + evaluateSegment
                      [board row col, board (row + 1) col, board (row + 2) col, board (row + 3) col] player)
                    score [0..<Rows - 3]) score [0..<Columns];
          score = foldl (\<lambda>score row. foldl (\<lambda>score col.
                    score + evaluateSegment
                      [board row col, board (row + 1) (col + 1), board (row + 2) (col + 2),
                       board (row + 3) (col + 3)] player)
                    score [0..<Columns - 3]) score [0..<Rows - 3];
          score = foldl (\<lambda>score row. foldl (\<lambda>score col.
                    score + evaluateSegment
                      [board row col, board (row - 1) (col + 1), board (row - 2) (col + 2),
                       board (row - 3) (col + 3)] player)
                    score [0..<Columns - 3]) score [3..<Rows]
      in score)"

definition evaluateBoard :: "GameBoard \<Rightarrow> int" where
  "evaluateBoard board =
     (let score = 0;
          score = score + evaluateLines board Computer;
          score = score - evaluateLines board Player
      in score)"

section \<open>Board queries (computer.go, lines 95-160)\<close>

text \<open>
  Each loop nest of \<^verbatim>\<open>checkWin\<close> returns \<^verbatim>\<open>true\<close> at the first match and falls through to
  the next nest otherwise: an existential over the index ranges, in the source's order.
\<close>

definition checkWin :: "GameBoard \<Rightarrow> int \<Rightarrow> bool" where
  "checkWin board player =
     (list_ex (\<lambda>row. list_ex (\<lambda>col.
        board row col = player \<and> board row (col + 1) = player \<and>
        board row (col + 2) = player \<and> board row (col + 3) = player) [0..<Columns - 3]) [0..<Rows]
      \<or>
      list_ex (\<lambda>col. list_ex (\<lambda>row.
        board row col = player \<and> board (row + 1) col = player \<and>
        board (row + 2) col = player \<and> board (row + 3) col = player) [0..<Rows - 3]) [0..<Columns]
      \<or>
      list_ex (\<lambda>row. list_ex (\<lambda>col.
        board row col = player \<and> board (row + 1) (col + 1) = player \<and>
        board (row + 2) (col + 2) = player \<and> board (row + 3) (col + 3) = player) [0..<Columns - 3])
        [0..<Rows - 3]
      \<or>
      list_ex (\<lambda>row. list_ex (\<lambda>col.
        board row col = player \<and> board (row - 1) (col + 1) = player \<and>
        board (row - 2) (col + 2) = player \<and> board (row - 3) (col + 3) = player) [0..<Columns - 3])
        [3..<Rows])"

definition isBoardFull :: "GameBoard \<Rightarrow> bool" where
  "isBoardFull board = (\<not> list_ex (\<lambda>col. board 0 col = Empty) [0..<Columns])"

definition isTerminalNode :: "GameBoard \<Rightarrow> bool" where
  "isTerminalNode board = (checkWin board Player \<or> checkWin board Computer \<or> isBoardFull board)"

text \<open>The result is a Go \<^verbatim>\<open>[]int\<close>: the columns are \<open>int\<close>s, as \<^verbatim>\<open>dropPiece\<close> takes them.\<close>

definition getValidColumns :: "GameBoard \<Rightarrow> int list" where
  "getValidColumns board = map int (filter (\<lambda>col. board 0 col = Empty) [0..<Columns])"

section \<open>Dropping a piece (computer.go, lines 162-171)\<close>

text \<open>
  \<^verbatim>\<open>for row := Rows - 1; row >= 0; row--\<close>: the loop counter of the model is \<open>row + 1\<close>,
  so that it ends at 0. The first Empty cell met from the bottom is overwritten and the
  loop is left; when there is none the board is returned as it came.

  \<^verbatim>\<open>board[row][col]\<close> with \<open>col\<close> outside 0..6 is Go's index-out-of-range panic, raised at
  the first iteration. The parameter is the callee's own copy of the array (Go passes
  arrays by value), so the caller's board is the unchanged argument of the function.
\<close>

fun dropPieceRows :: "GameBoard \<Rightarrow> nat \<Rightarrow> int \<Rightarrow> nat \<Rightarrow> GameBoard" where
  "dropPieceRows board col player 0 = board"
| "dropPieceRows board col player (Suc row) =
     (if board row col = Empty then board(row := (board row)(col := player))
      else dropPieceRows board col player row)"

definition dropPiece :: "GameBoard \<Rightarrow> int \<Rightarrow> int \<Rightarrow> error + GameBoard" where
  "dropPiece board col player =
     (if col < 0 \<or> int Columns \<le> col then Inl IndexOutOfRange
      else Inr (dropPieceRows board (nat col) player Rows))"

section \<open>Scores, random numbers and loops\<close>

text \<open>
  The scores of \<^verbatim>\<open>minimax\<close> are Go \<^verbatim>\<open>float64\<close> values, but only three kinds of them
  occur: \<^verbatim>\<open>math.Inf(1)\<close>, \<^verbatim>\<open>math.Inf(-1)\<close> and \<^verbatim>\<open>float64(evaluateBoard(board))\<close> (the
  literal 0 of a drawn board is one of the latter). \<^verbatim>\<open>evaluateBoard\<close> lies between -6900
  and 6900 (\<open>evaluateBoard_bounds\<close> below), so the conversion is exact, and the code
  only compares scores and takes \<^verbatim>\<open>math.Max\<close> and \<^verbatim>\<open>math.Min\<close> of them: no rounding
  and no NaN can arise. A score is therefore an integer or one of the two infinities,
  ordered as the floats are.
\<close>

datatype score = NegInf | Fin int | PosInf

instantiation score :: linorder
begin

fun less_eq_score :: "score \<Rightarrow> score \<Rightarrow> bool" where
  "less_eq_score NegInf y = True"
| "less_eq_score (Fin a) NegInf = False"
| "less_eq_score (Fin a) (Fin b) = (a \<le> b)"
| "less_eq_score (Fin a) PosInf = True"
| "less_eq_score PosInf PosInf = True"
| "less_eq_score PosInf y = False"

definition less_score :: "score \<Rightarrow> score \<Rightarrow> bool" where
  "less_score x y = (x \<le> y \<and> \<not> y \<le> x)"

instance
proof
  fix x y z :: score
  show "(x < y) = (x \<le> y \<and> \<not> y \<le> x)" by (simp add: less_score_def)
  show "x \<le> x" by (cases x) simp_all
  show "x \<le> y \<Longrightarrow> y \<le> z \<Longrightarrow> x \<le> z" by (cases x; cases y; cases z) simp_all
  show "x \<le> y \<Longrightarrow> y \<le> x \<Longrightarrow> x = y" by (cases x; cases y) simp_all
  show "x \<le> y \<or> y \<le> x" by (cases x; cases y) auto
qed

end

text \<open>
  \<^verbatim>\<open>rand.Intn(n)\<close> reads and advances the global generator of \<^verbatim>\<open>math/rand\<close>, returns a
  number in [0, n) and panics when \<open>n\<close> is not positive. The state of the generator is
  the stream of the raw numbers it is still to produce; taking the head modulo \<open>n\<close>
  covers every value \<^verbatim>\<open>Intn\<close> can return, since the stream is arbitrary.
\<close>

type_synonym rng = "nat stream"

definition Intn :: "rng \<Rightarrow> nat \<Rightarrow> error + nat \<times> rng" where
  "Intn g n = (if n = 0 then Inl IntnInvalidArgument else Inr (shd g mod n, stl g))"

text \<open>
  \<^verbatim>\<open>for _, x := range xs { ... }\<close> with a \<^verbatim>\<open>break\<close>: the body maps the loop's variables
  to their new values and tells whether the loop is left; a panic in the body ends
  everything.
\<close>

fun forRange :: "('a \<Rightarrow> 's \<Rightarrow> error + 's \<times> bool) \<Rightarrow> 'a list \<Rightarrow> 's \<Rightarrow> error + 's" where
  "forRange body [] s = Inr s"
| "forRange body (x # xs) s =
     (case body x s of
        Inl e \<Rightarrow> Inl e
      | Inr (s', brk) \<Rightarrow> if brk then Inr s' else forRange body xs s')"

lemma forRange_cong [fundef_cong]:
  "xs = ys \<Longrightarrow> s = t \<Longrightarrow> (\<And>x u. x \<in> set ys \<Longrightarrow> f x u = g x u) \<Longrightarrow> forRange f xs s = forRange g ys t"
proof (induction ys arbitrary: xs s t)
  case Nil then show ?case by simp
next
  case (Cons y ys)
  then show ?case by (auto split: sum.splits prod.splits)
qed

section \<open>The search (computer.go, lines 173-231)\<close>

text \<open>
  \<^verbatim>\<open>minimax\<close> calls itself on boards with one more piece, whatever \<open>depth\<close> is (a
  negative depth never reaches 0, and the search then ends at terminal boards only). It
  terminates because the number of Empty cells goes down: every column taken from
  \<^verbatim>\<open>getValidColumns\<close> has an Empty top cell, so \<^verbatim>\<open>dropPiece\<close> fills a cell there.
\<close>

definition emptyCells :: "GameBoard \<Rightarrow> nat" where
  "emptyCells board = card {(r, c). r < Rows \<and> c < Columns \<and> board r c = Empty}"

lemma dropPieceRows_full:
  fixes board :: GameBoard
  shows "(\<forall>r<n. board r col \<noteq> Empty) \<Longrightarrow> dropPieceRows board col player n = board"
  by (induction n) simp_all

lemma dropPieceRows_lowest:
  "r < n \<Longrightarrow> board r col = Empty \<Longrightarrow> (\<forall>r'. r < r' \<and> r' < n \<longrightarrow> board r' col \<noteq> Empty) \<Longrightarrow>
   dropPieceRows board col player n = board(r := (board r)(col := player))"
proof (induction n)
  case 0
  then show ?case by simp
next
  case (Suc n)
  show ?case
  proof (cases "r = n")
    case True
    from Suc.prems(2) have "board n col = Empty" unfolding True .
    then show ?thesis unfolding True by (simp add: fun_upd_def)
  next
    case False
    with Suc.prems have "r < n" and "board n col \<noteq> Empty" by auto
    with Suc show ?thesis by simp
  qed
qed

lemma lowest_empty_exists:
  fixes board :: GameBoard
  shows "r0 < n \<Longrightarrow> board r0 col = Empty \<Longrightarrow>
   \<exists>r<n. board r col = Empty \<and> (\<forall>r'. r < r' \<and> r' < n \<longrightarrow> board r' col \<noteq> Empty)"
proof (induction n)
  case 0
  then show ?case by simp
next
  case (Suc n)
  show ?case
  proof (cases "board n col = Empty")
    case True
    then show ?thesis by (intro exI [of _ n]) auto
  next
    case False
    with Suc.prems have "r0 < n" by (cases "r0 = n") auto
    with Suc obtain r where "r < n" "board r col = Empty"
      "\<forall>r'. r < r' \<and> r' < n \<longrightarrow> board r' col \<noteq> Empty" by blast
    with False show ?thesis
      by (intro exI [of _ r]) (auto simp: less_Suc_eq)
  qed
qed

lemma finite_cells: "finite {(r, c). r < Rows \<and> c < Columns \<and> P r c}"
proof -
  have "{(r, c). r < Rows \<and> c < Columns \<and> P r c} \<subseteq> {..<Rows} \<times> {..<Columns}" by auto
  then show ?thesis by (rule finite_subset) simp
qed

lemma emptyCells_update:
  assumes "r < Rows" "c < Columns" "board r c = Empty" "player \<noteq> Empty"
  shows "emptyCells (board(r := (board r)(c := player))) < emptyCells board"
proof -
  let ?E = "{(r, c). r < Rows \<and> c < Columns \<and> board r c = Empty}"
  have "{(r', c'). r' < Rows \<and> c' < Columns \<and> (board(r := (board r)(c := player))) r' c' = Empty}
        = ?E - {(r, c)}"
    using assms by (auto split: if_splits)
  moreover have "(r, c) \<in> ?E" using assms by simp
  moreover have "finite ?E" by (rule finite_cells)
  ultimately show ?thesis
    unfolding emptyCells_def using card_Diff1_less [of ?E "(r, c)"] by simp
qed

lemma set_getValidColumns:
  "set (getValidColumns board) = {col. 0 \<le> col \<and> col < int Columns \<and> board 0 (nat col) = Empty}"
proof (rule set_eqI, rule iffI)
  fix col
  assume "col \<in> set (getValidColumns board)"
  then show "col \<in> {col. 0 \<le> col \<and> col < int Columns \<and> board 0 (nat col) = Empty}"
    by (auto simp: getValidColumns_def)
next
  fix col
  assume "col \<in> {col. 0 \<le> col \<and> col < int Columns \<and> board 0 (nat col) = Empty}"
  then have "nat col \<in> set (filter (\<lambda>col. board 0 col = Empty) [0..<Columns])"
    and col: "int (nat col) = col" by auto
  then have "int (nat col) \<in> set (getValidColumns board)"
    unfolding getValidColumns_def set_map by (intro imageI)
  with col show "col \<in> set (getValidColumns board)" by simp
qed

lemma dropPiece_valid:
  assumes "col \<in> set (getValidColumns board)"
  shows "\<exists>r<Rows. board r (nat col) = Empty \<and>
           (\<forall>r'. r < r' \<and> r' < Rows \<longrightarrow> board r' (nat col) \<noteq> Empty) \<and>
           dropPiece board col player = Inr (board(r := (board r)(nat col := player)))"
proof -
  from assms have col: "0 \<le> col" "col < int Columns" "board 0 (nat col) = Empty"
    by (simp_all add: set_getValidColumns)
  have "\<exists>r<Rows. board r (nat col) = Empty \<and>
          (\<forall>r'. r < r' \<and> r' < Rows \<longrightarrow> board r' (nat col) \<noteq> Empty)"
    using lowest_empty_exists [of 0 Rows board "nat col"] col(3) by simp
  then obtain r where r: "r < Rows" "board r (nat col) = Empty"
    "\<forall>r'. r < r' \<and> r' < Rows \<longrightarrow> board r' (nat col) \<noteq> Empty" by blast
  from dropPieceRows_lowest [of r Rows board "nat col" player] r col(1,2)
  have "dropPiece board col player = Inr (board(r := (board r)(nat col := player)))"
    by (simp add: dropPiece_def)
  with r show ?thesis by blast
qed

lemma dropPiece_emptyCells:
  assumes "col \<in> set (getValidColumns board)" "player \<noteq> Empty"
    and "dropPiece board col player = Inr newBoard"
  shows "emptyCells newBoard < emptyCells board"
proof -
  from dropPiece_valid [OF assms(1), of player] assms(3)
  obtain r where r: "r < Rows" "board r (nat col) = Empty"
    "newBoard = board(r := (board r)(nat col := player))" by auto
  from assms(1) have "nat col < Columns" by (auto simp: set_getValidColumns)
  with emptyCells_update [of r "nat col" board player] r assms(2) show ?thesis by simp
qed

text \<open>
  The function itself. The loop variables of the maximizing branch are \<open>value\<close>,
  \<open>column\<close>, \<open>alpha\<close> and the generator; those of the minimizing branch are \<open>value\<close>,
  \<open>column\<close>, \<open>beta\<close> and the generator. The result is the pair of the source, with the
  generator as it is left. \<open>depth\<close> is a Go \<^verbatim>\<open>int\<close>; it is only compared with 0 and
  decremented at most 42 times along a branch, so an unbounded integer reaches 0 exactly
  when the 64-bit one does.
\<close>

function minimax :: "GameBoard \<Rightarrow> int \<Rightarrow> score \<Rightarrow> score \<Rightarrow> bool \<Rightarrow> rng \<Rightarrow> error + (int \<times> score) \<times> rng" where
  "minimax board depth alpha beta maximizingPlayer g =
     (let validColumns = getValidColumns board;
          isTerminal = isTerminalNode board
      in if depth = 0 \<or> isTerminal then
           (if isTerminal then
              (if checkWin board Computer then Inr ((-1, PosInf), g)
               else if checkWin board Player then Inr ((-1, NegInf), g)
               else Inr ((-1, Fin 0), g))
            else Inr ((-1, Fin (evaluateBoard board)), g))
         else if maximizingPlayer then
           (case Intn g (length validColumns) of
              Inl e \<Rightarrow> Inl e
            | Inr (i, g) \<Rightarrow>
               (case forRange (\<lambda>col (value, column, alpha, g).
                        case dropPiece board col Computer of
                          Inl e \<Rightarrow> Inl e
                        | Inr newBoard \<Rightarrow>
                           (case minimax newBoard (depth - 1) alpha beta False g of
                              Inl e \<Rightarrow> Inl e
                            | Inr ((_, newScore), g) \<Rightarrow>
                               (let (value, column) =
                                      (if newScore > value then (newScore, col) else (value, column));
                                    alpha = max alpha value
                                in Inr ((value, column, alpha, g), alpha \<ge> beta))))
                      validColumns (NegInf, validColumns ! i, alpha, g) of
                  Inl e \<Rightarrow> Inl e
                | Inr (value, column, _, g) \<Rightarrow> Inr ((column, value), g)))
         else
           (case Intn g (length validColumns) of
              Inl e \<Rightarrow> Inl e
            | Inr (i, g) \<Rightarrow>
               (case forRange (\<lambda>col (value, column, beta, g).
                        case dropPiece board col Player of
                          Inl e \<Rightarrow> Inl e
                        | Inr newBoard \<Rightarrow>
                           (case minimax newBoard (depth - 1) alpha beta True g of
                              Inl e \<Rightarrow> Inl e
                            | Inr ((_, newScore), g) \<Rightarrow>
                               (let (value, column) =
                                      (if newScore < value then (newScore, col) else (value, column));
                                    beta = min beta value
                                in Inr ((value, column, beta, g), alpha \<ge> beta))))
                      validColumns (PosInf, validColumns ! i, beta, g) of
                  Inl e \<Rightarrow> Inl e
                | Inr (value, column, _, g) \<Rightarrow> Inr ((column, value), g))))"
  by pat_completeness auto
termination
  apply (relation "measure (\<lambda>(board, depth, alpha, beta, m, g). emptyCells board)")
    apply simp
   apply (auto intro: dropPiece_emptyCells [where player = Computer]
      dropPiece_emptyCells [where player = Player])
  done

declare minimax.simps [simp del]

text \<open>
  \<^verbatim>\<open>getComputerMove\<close> seeds the generator from the clock and keeps the column of the
  search. The generator after seeding is the parameter \<open>g\<close>.
\<close>

definition getComputerMove :: "GameBoard \<Rightarrow> int \<Rightarrow> rng \<Rightarrow> error + int" where
  "getComputerMove board depth g =
     (case minimax board depth NegInf PosInf True g of
        Inl e \<Rightarrow> Inl e
      | Inr ((column, _), _) \<Rightarrow> Inr column)"

section \<open>Definitions for the properties\<close>

text \<open>
  The unpruned search that the specification compares \<^verbatim>\<open>minimax\<close> with: the score of a
  leaf is the score of the cutoff rule, the score of an inner node is the maximum (the
  Computer to move) or the minimum (the Player to move) of the scores of all children,
  one for each valid column.
\<close>

definition childBoard :: "GameBoard \<Rightarrow> int \<Rightarrow> int \<Rightarrow> GameBoard" where
  "childBoard board col player = dropPieceRows board (nat col) player Rows"

definition leafScore :: "GameBoard \<Rightarrow> score" where
  "leafScore board =
     (if checkWin board Computer then PosInf
      else if checkWin board Player then NegInf
      else if isBoardFull board then Fin 0
      else Fin (evaluateBoard board))"

lemma childBoard_emptyCells:
  assumes "col \<in> set (getValidColumns board)" "player \<noteq> Empty"
  shows "emptyCells (childBoard board col player) < emptyCells board"
proof -
  from assms(1) have "dropPiece board col player = Inr (childBoard board col player)"
    by (auto simp: set_getValidColumns dropPiece_def childBoard_def)
  with dropPiece_emptyCells [of col board player] assms show ?thesis by simp
qed

function minimaxFull :: "GameBoard \<Rightarrow> int \<Rightarrow> bool \<Rightarrow> score" where
  "minimaxFull board depth maximizingPlayer =
     (if depth = 0 \<or> isTerminalNode board then leafScore board
      else if maximizingPlayer then
        foldl max NegInf
          (map (\<lambda>col. minimaxFull (childBoard board col Computer) (depth - 1) False)
             (getValidColumns board))
      else
        foldl min PosInf
          (map (\<lambda>col. minimaxFull (childBoard board col Player) (depth - 1) True)
             (getValidColumns board)))"
  by pat_completeness auto
termination
  by (relation "measure (\<lambda>(board, depth, m). emptyCells board)")
    (auto intro: childBoard_emptyCells)

declare minimaxFull.simps [simp del]

text \<open>
  What a search with the window from \<open>a\<close> to \<open>b\<close> promises about its result \<open>v\<close> when
  the unpruned score is \<open>m\<close>: inside the window the result is exact, at or below \<open>a\<close> it
  is an upper bound of \<open>m\<close>, at or above \<open>b\<close> a lower bound.
\<close>

definition failSoft :: "'a::linorder \<Rightarrow> 'a \<Rightarrow> 'a \<Rightarrow> 'a \<Rightarrow> bool" where
  "failSoft a b v m = ((v \<le> a \<longrightarrow> m \<le> v) \<and> (b \<le> v \<longrightarrow> v \<le> m) \<and> (a < v \<and> v < b \<longrightarrow> v = m))"

text \<open>The bodies of the two loops of \<^verbatim>\<open>minimax\<close>, named.\<close>

definition maxBody :: "GameBoard \<Rightarrow> int \<Rightarrow> score \<Rightarrow> int \<Rightarrow> score \<times> int \<times> score \<times> rng \<Rightarrow>
    error + (score \<times> int \<times> score \<times> rng) \<times> bool" where
  "maxBody board depth beta = (\<lambda>col (value, column, alpha, g).
     case dropPiece board col Computer of
       Inl e \<Rightarrow> Inl e
     | Inr newBoard \<Rightarrow>
        (case minimax newBoard (depth - 1) alpha beta False g of
           Inl e \<Rightarrow> Inl e
         | Inr ((_, newScore), g) \<Rightarrow>
            (let (value, column) = (if newScore > value then (newScore, col) else (value, column));
                 alpha = max alpha value
             in Inr ((value, column, alpha, g), alpha \<ge> beta))))"

definition minBody :: "GameBoard \<Rightarrow> int \<Rightarrow> score \<Rightarrow> int \<Rightarrow> score \<times> int \<times> score \<times> rng \<Rightarrow>
    error + (score \<times> int \<times> score \<times> rng) \<times> bool" where
  "minBody board depth alpha = (\<lambda>col (value, column, beta, g).
     case dropPiece board col Player of
       Inl e \<Rightarrow> Inl e
     | Inr newBoard \<Rightarrow>
        (case minimax newBoard (depth - 1) alpha beta True g of
           Inl e \<Rightarrow> Inl e
         | Inr ((_, newScore), g) \<Rightarrow>
            (let (value, column) = (if newScore < value then (newScore, col) else (value, column));
                 beta = min beta value
             in Inr ((value, column, beta, g), alpha \<ge> beta))))"

text \<open>The number of cells of the board that are not Empty.\<close>

definition nonEmptyCells :: "GameBoard \<Rightarrow> nat" where
  "nonEmptyCells board =
     length (filter (\<lambda>(row, col). board row col \<noteq> Empty) (List.product [0..<Rows] [0..<Columns]))"

text \<open>
  The segments of four cells, as lists of (row, column), in the four orientations, and
  the score of the cells of a segment for a player, by counting.
\<close>

definition horizontalSegments :: "(nat \<times> nat) list list" where
  "horizontalSegments = concat (map (\<lambda>row. map (\<lambda>col.
     [(row, col), (row, col + 1), (row, col + 2), (row, col + 3)]) [0..<Columns - 3]) [0..<Rows])"

definition verticalSegments :: "(nat \<times> nat) list list" where
  "verticalSegments = concat (map (\<lambda>col. map (\<lambda>row.
     [(row, col), (row + 1, col), (row + 2, col), (row + 3, col)]) [0..<Rows - 3]) [0..<Columns])"

definition diagonalDownSegments :: "(nat \<times> nat) list list" where
  "diagonalDownSegments = concat (map (\<lambda>row. map (\<lambda>col.
     [(row, col), (row + 1, col + 1), (row + 2, col + 2), (row + 3, col + 3)]) [0..<Columns - 3])
     [0..<Rows - 3])"

definition diagonalUpSegments :: "(nat \<times> nat) list list" where
  "diagonalUpSegments = concat (map (\<lambda>row. map (\<lambda>col.
     [(row, col), (row - 1, col + 1), (row - 2, col + 2), (row - 3, col + 3)]) [0..<Columns - 3])
     [3..<Rows])"

definition segments :: "(nat \<times> nat) list list" where
  "segments = horizontalSegments @ verticalSegments @ diagonalDownSegments @ diagonalUpSegments"

definition cellsOf :: "GameBoard \<Rightarrow> (nat \<times> nat) list \<Rightarrow> int list" where
  "cellsOf board segment = map (\<lambda>(row, col). board row col) segment"

definition segmentScore :: "int list \<Rightarrow> int \<Rightarrow> int" where
  "segmentScore cells player =
     (if count_list cells player = 4 then 100
      else if count_list cells player = 3 \<and> count_list cells Empty = 1 then 10
      else if count_list cells player = 2 \<and> count_list cells Empty = 2 then 5
      else 0)"

text \<open>Exchanging the two players on the whole board.\<close>

definition swapCell :: "int \<Rightarrow> int" where
  "swapCell cell = (if cell = Player then Computer else if cell = Computer then Player else cell)"

definition swapPlayers :: "GameBoard \<Rightarrow> GameBoard" where
  "swapPlayers board = (\<lambda>row col. swapCell (board row col))"

text \<open>
  Concrete boards, written row by row with row 0 (the top) first: the empty board, a
  board whose column 0 is full, a board on which the Computer has four in the bottom
  row, and a board on which the Player has just completed four in the bottom row. Each
  can be reached by alternate moves with the Player moving first.
\<close>

definition board_of :: "int list list \<Rightarrow> GameBoard" where
  "board_of rows = (\<lambda>r c. if r < Rows \<and> c < Columns then rows ! r ! c else Empty)"

definition emptyRow :: "int list" where
  "emptyRow = [0, 0, 0, 0, 0, 0, 0]"

definition emptyBoard :: GameBoard where
  "emptyBoard = board_of [emptyRow, emptyRow, emptyRow, emptyRow, emptyRow, emptyRow]"

definition fullColumnBoard :: GameBoard where
  "fullColumnBoard = board_of
     [[2, 0, 0, 0, 0, 0, 0],
      [1, 0, 0, 0, 0, 0, 0],
      [2, 0, 0, 0, 0, 0, 0],
      [1, 0, 0, 0, 0, 0, 0],
      [2, 0, 0, 0, 0, 0, 0],
      [1, 0, 0, 0, 0, 0, 0]]"

definition wonBoard :: GameBoard where
  "wonBoard = board_of
     [emptyRow, emptyRow, emptyRow, emptyRow,
      [1, 1, 1, 0, 0, 0, 0],
      [2, 2, 2, 2, 1, 0, 0]]"

definition playerWonBoard :: GameBoard where
  "playerWonBoard = board_of
     [emptyRow, emptyRow, emptyRow, emptyRow, emptyRow,
      [1, 1, 1, 1, 2, 2, 2]]"

section \<open>Lemmas\<close>

subsection \<open>Facts about the scores and the concrete boards\<close>

lemma NegInf_least [simp]: "NegInf \<le> x"
  by simp

lemma PosInf_greatest [simp]: "x \<le> PosInf"
  by (cases x) simp_all

lemma le_NegInf [simp]: "x \<le> NegInf \<longleftrightarrow> x = NegInf"
  by (cases x) simp_all

lemma PosInf_le [simp]: "PosInf \<le> x \<longleftrightarrow> x = PosInf"
  by (cases x) simp_all

lemma NegInf_less_PosInf [simp]: "NegInf < PosInf"
  by (simp add: less_score_def)

lemma wonBoard_facts:
  "checkWin wonBoard Computer" "\<not> checkWin wonBoard Player" "\<not> isBoardFull wonBoard"
  "getValidColumns wonBoard = [0, 1, 2, 3, 4, 5, 6]"
  by code_simp+

lemma playerWonBoard_facts:
  "checkWin playerWonBoard Player" "\<not> checkWin playerWonBoard Computer"
  "getValidColumns playerWonBoard = [0, 1, 2, 3, 4, 5, 6]"
  by code_simp+

lemma emptyBoard_facts:
  "\<not> checkWin emptyBoard Computer" "\<not> checkWin emptyBoard Player" "\<not> isBoardFull emptyBoard"
  "getValidColumns emptyBoard = [0, 1, 2, 3, 4, 5, 6]" "evaluateBoard emptyBoard = 0"
  by code_simp+

subsection \<open>The evaluator as a sum over segments\<close>

lemma foldl_add_sum_list:
  "foldl (\<lambda>score x. score + f x) a xs = a + sum_list (map f xs)"
  for a :: int
  by (induction xs arbitrary: a) simp_all

lemma foldl_nested_sum_list:
  "foldl (\<lambda>score x. foldl (\<lambda>score y. score + f x y) score ys) a xs
     = a + sum_list (map (\<lambda>x. sum_list (map (f x) ys)) xs)"
  for a :: int
  by (induction xs arbitrary: a) (simp_all add: foldl_add_sum_list)

lemma sum_list_concat_map:
  "sum_list (map g (concat (map (\<lambda>x. map (h x) ys) xs)))
     = sum_list (map (\<lambda>x. sum_list (map (\<lambda>y. g (h x y)) ys)) xs)"
  for g :: "'a \<Rightarrow> int"
  by (induction xs) (simp_all add: comp_def)

lemma evaluateLines_segments:
  "evaluateLines board player
     = sum_list (map (\<lambda>segment. evaluateSegment (cellsOf board segment) player) segments)"
  unfolding evaluateLines_def segments_def horizontalSegments_def verticalSegments_def
    diagonalDownSegments_def diagonalUpSegments_def Let_def map_append sum_list_append
    foldl_nested_sum_list sum_list_concat_map cellsOf_def
  by simp

lemma countCells_count_list:
  "player \<noteq> Empty \<Longrightarrow>
   countCells cells player (a, b) = (a + count_list cells player, b + count_list cells Empty)"
  by (induction cells arbitrary: a b) simp_all

lemma evaluateSegment_segmentScore:
  "player \<noteq> Empty \<Longrightarrow> evaluateSegment cells player = segmentScore cells player"
  by (simp add: evaluateSegment_def segmentScore_def countCells_count_list)

lemma count_list_three:
  "a \<noteq> b \<Longrightarrow> a \<noteq> c \<Longrightarrow> b \<noteq> c \<Longrightarrow>
   count_list xs a + count_list xs b + count_list xs c \<le> length xs"
  by (induction xs) auto

lemma count_list_pos: "x \<in> set xs \<Longrightarrow> 0 < count_list xs x"
  by (induction xs) auto

lemma segmentScore_opponent:
  assumes "length cells = 4" "opponent \<in> set cells" "opponent \<noteq> player" "opponent \<noteq> Empty"
    "player \<noteq> Empty"
  shows "segmentScore cells player = 0"
proof -
  from count_list_three [of player Empty opponent cells] assms
  have "count_list cells player + count_list cells Empty + count_list cells opponent \<le> 4"
    by simp
  moreover from count_list_pos [OF assms(2)] have "0 < count_list cells opponent" .
  ultimately show ?thesis by (simp add: segmentScore_def)
qed

lemma length_segments:
  "length horizontalSegments = 24" "length verticalSegments = 21"
  "length diagonalDownSegments = 12" "length diagonalUpSegments = 12" "length segments = 69"
  by (simp_all add: segments_def horizontalSegments_def verticalSegments_def
      diagonalDownSegments_def diagonalUpSegments_def length_concat comp_def sum_list_triv)

lemma evaluateSegment_range:
  "0 \<le> evaluateSegment cells player \<and> evaluateSegment cells player \<le> 100"
  by (simp add: evaluateSegment_def split: prod.splits)

lemma sum_list_range:
  fixes f :: "'a \<Rightarrow> int"
  assumes "\<And>x. 0 \<le> f x \<and> f x \<le> c"
  shows "0 \<le> sum_list (map f xs) \<and> sum_list (map f xs) \<le> int (length xs) * c"
proof (induction xs)
  case Nil
  show ?case by simp
next
  case (Cons x xs)
  with assms [of x] show ?case by (simp add: algebra_simps)
qed

lemma evaluateLines_range:
  "0 \<le> evaluateLines board player \<and> evaluateLines board player \<le> 6900"
  using sum_list_range [of "\<lambda>segment. evaluateSegment (cellsOf board segment) player" 100 segments]
  by (simp add: evaluateLines_segments evaluateSegment_range length_segments)

lemma evaluateBoard_bounds:
  "- 6900 \<le> evaluateBoard board \<and> evaluateBoard board \<le> 6900"
  using evaluateLines_range [of board Computer] evaluateLines_range [of board Player]
  by (simp add: evaluateBoard_def)

lemma countCells_swap:
  "countCells (map swapCell cells) Computer (a, b) = countCells cells Player (a, b)"
  "countCells (map swapCell cells) Player (a, b) = countCells cells Computer (a, b)"
  by (induction cells arbitrary: a b; simp add: swapCell_def)+

lemma evaluateSegment_swap:
  "evaluateSegment (map swapCell cells) Computer = evaluateSegment cells Player"
  "evaluateSegment (map swapCell cells) Player = evaluateSegment cells Computer"
  by (simp_all only: evaluateSegment_def countCells_swap)

lemma cellsOf_swapPlayers: "cellsOf (swapPlayers board) segment = map swapCell (cellsOf board segment)"
  by (simp add: cellsOf_def swapPlayers_def case_prod_unfold)

subsection \<open>Counting cells\<close>

lemma distinct_cells: "distinct (List.product [0..<Rows] [0..<Columns])"
  by (simp add: distinct_product del: Rows_def Columns_def)

lemma nonEmptyCells_card:
  "nonEmptyCells board = card {(r, c). r < Rows \<and> c < Columns \<and> board r c \<noteq> Empty}"
proof -
  have "nonEmptyCells board
      = card (set (filter (\<lambda>(row, col). board row col \<noteq> Empty) (List.product [0..<Rows] [0..<Columns])))"
    unfolding nonEmptyCells_def
    by (rule distinct_card [symmetric]) (rule distinct_filter, rule distinct_cells)
  also have "set (filter (\<lambda>(row, col). board row col \<noteq> Empty) (List.product [0..<Rows] [0..<Columns]))
      = {(r, c). r < Rows \<and> c < Columns \<and> board r c \<noteq> Empty}"
    by auto
  finally show ?thesis .
qed

lemma nonEmptyCells_update:
  assumes "r < Rows" "c < Columns" "board r c = Empty" "player \<noteq> Empty"
  shows "nonEmptyCells (board(r := (board r)(c := player))) = nonEmptyCells board + 1"
proof -
  let ?N = "{(r, c). r < Rows \<and> c < Columns \<and> board r c \<noteq> Empty}"
  have "{(r', c'). r' < Rows \<and> c' < Columns \<and> (board(r := (board r)(c := player))) r' c' \<noteq> Empty}
        = insert (r, c) ?N"
    using assms by (auto split: if_splits)
  moreover have "(r, c) \<notin> ?N" using assms by simp
  moreover have "finite ?N" by (rule finite_cells)
  ultimately show ?thesis
    unfolding nonEmptyCells_card by simp
qed

subsection \<open>Runs of four\<close>

lemma all_less_4: "(\<forall>i<4. P i) \<longleftrightarrow> P (0::nat) \<and> P 1 \<and> P 2 \<and> P 3"
  by (auto simp: All_less_Suc numeral_nat)

lemma list_ex_upt: "list_ex P [a..<b] \<longleftrightarrow> (\<exists>x. a \<le> x \<and> x < b \<and> P x)"
  by (auto simp: list_ex_iff)

subsection \<open>Alpha-beta pruning\<close>

lemma foldl_max_max: "foldl max (max a b) xs = max b (foldl max a xs)"
  for a :: "'a::linorder"
proof (induction xs arbitrary: a)
  case Nil show ?case by (simp add: max.commute)
next
  case (Cons x xs)
  have "max (max a b) x = max (max a x) b" by (simp add: max.commute max.left_commute)
  with Cons.IH [of "max a x"] show ?case by simp
qed

lemma foldl_max_ge: "a \<le> foldl max a xs"
  for a :: "'a::linorder"
proof (induction xs arbitrary: a)
  case Nil show ?case by simp
next
  case (Cons x xs)
  have "a \<le> max a x" by simp
  also have "\<dots> \<le> foldl max (max a x) xs" by (rule Cons.IH)
  finally show ?case by simp
qed

lemma foldl_min_min: "foldl min (min a b) xs = min b (foldl min a xs)"
  for a :: "'a::linorder"
proof (induction xs arbitrary: a)
  case Nil show ?case by (simp add: min.commute)
next
  case (Cons x xs)
  have "min (min a b) x = min (min a x) b" by (simp add: min.commute min.left_commute)
  with Cons.IH [of "min a x"] show ?case by simp
qed

lemma foldl_min_le: "foldl min a xs \<le> a"
  for a :: "'a::linorder"
proof (induction xs arbitrary: a)
  case Nil show ?case by simp
next
  case (Cons x xs)
  have "foldl min (min a x) xs \<le> min a x" by (rule Cons.IH)
  also have "\<dots> \<le> a" by simp
  finally show ?case by simp
qed

lemma max_step_break:
  fixes a :: "'a::linorder"
  assumes "value \<le> a" "a < b" "failSoft a b vc mc" "value \<le> R" "b \<le> max a (max value vc)"
  shows "failSoft a b (max value vc) (max mc R)"
  using assms unfolding failSoft_def max_def by (auto split: if_splits)

lemma max_step_continue:
  fixes a :: "'a::linorder"
  assumes "value \<le> a" "a < b" "failSoft a b vc mc" "value \<le> R" "\<not> b \<le> max a (max value vc)"
    and "failSoft (max a (max value vc)) b v (max vc R)"
  shows "failSoft a b v (max mc R)"
  using assms unfolding failSoft_def max_def by (auto split: if_splits)

lemma min_step_break:
  fixes a :: "'a::linorder"
  assumes "b \<le> value" "a < b" "failSoft a b vc mc" "R \<le> value" "min b (min value vc) \<le> a"
  shows "failSoft a b (min value vc) (min mc R)"
  using assms unfolding failSoft_def min_def by (auto split: if_splits)

lemma min_step_continue:
  fixes a :: "'a::linorder"
  assumes "b \<le> value" "a < b" "failSoft a b vc mc" "R \<le> value" "\<not> min b (min value vc) \<le> a"
    and "failSoft a (min b (min value vc)) v (min vc R)"
  shows "failSoft a b v (min mc R)"
  using assms unfolding failSoft_def min_def by (auto split: if_splits)

lemma minimax_leaf:
  "depth = 0 \<or> isTerminalNode board \<Longrightarrow>
   minimax board depth alpha beta maximizingPlayer g = Inr ((-1, leafScore board), g)"
  by (subst minimax.simps) (auto simp: Let_def leafScore_def isTerminalNode_def)

lemma minimax_max:
  "\<not> (depth = 0 \<or> isTerminalNode board) \<Longrightarrow>
   minimax board depth alpha beta True g =
     (case Intn g (length (getValidColumns board)) of
        Inl e \<Rightarrow> Inl e
      | Inr (i, g1) \<Rightarrow>
         (case forRange (maxBody board depth beta) (getValidColumns board)
                 (NegInf, getValidColumns board ! i, alpha, g1) of
            Inl e \<Rightarrow> Inl e
          | Inr (value, column, _, g2) \<Rightarrow> Inr ((column, value), g2)))"
  unfolding maxBody_def by (subst minimax.simps) (simp add: Let_def)

lemma minimax_min:
  "\<not> (depth = 0 \<or> isTerminalNode board) \<Longrightarrow>
   minimax board depth alpha beta False g =
     (case Intn g (length (getValidColumns board)) of
        Inl e \<Rightarrow> Inl e
      | Inr (i, g1) \<Rightarrow>
         (case forRange (minBody board depth alpha) (getValidColumns board)
                 (PosInf, getValidColumns board ! i, beta, g1) of
            Inl e \<Rightarrow> Inl e
          | Inr (value, column, _, g2) \<Rightarrow> Inr ((column, value), g2)))"
  unfolding minBody_def by (subst minimax.simps) (simp add: Let_def)

lemma dropPiece_inrange:
  "0 \<le> col \<Longrightarrow> col < int Columns \<Longrightarrow> dropPiece board col player = Inr (childBoard board col player)"
  by (simp add: dropPiece_def childBoard_def)

lemma maxLoop:
  assumes children: "\<And>col a g. col \<in> set cols \<Longrightarrow> a < beta \<Longrightarrow>
      \<exists>c v g'. minimax (childBoard board col Computer) (depth - 1) a beta False g = Inr ((c, v), g')
        \<and> failSoft a beta v (m col)"
    and inrange: "\<And>col. col \<in> set cols \<Longrightarrow> 0 \<le> col \<and> col < int Columns"
    and bounds: "value \<le> alpha" "alpha < beta"
  shows "\<exists>value' column' alpha' g'.
      forRange (maxBody board depth beta) cols (value, column, alpha, g) = Inr (value', column', alpha', g')
      \<and> failSoft alpha beta value' (foldl max value (map m cols))
      \<and> column' \<in> insert column (set cols)"
  using assms
proof (induction cols arbitrary: "value" column alpha g)
  case Nil
  then show ?case by (simp add: failSoft_def)
next
  case (Cons c cs)
  from Cons.prems(1) [of c alpha g] Cons.prems(4)
  obtain cc vc g1 where child:
    "minimax (childBoard board c Computer) (depth - 1) alpha beta False g = Inr ((cc, vc), g1)"
    and fs: "failSoft alpha beta vc (m c)" by auto
  from Cons.prems(2) [of c] have drop: "dropPiece board c Computer = Inr (childBoard board c Computer)"
    by (simp add: dropPiece_inrange)
  let ?value1 = "max value vc"
  let ?column1 = "if value < vc then c else column"
  let ?alpha1 = "max alpha ?value1"
  have body: "maxBody board depth beta c (value, column, alpha, g)
      = Inr ((?value1, ?column1, ?alpha1, g1), beta \<le> ?alpha1)"
    using drop child by (auto simp: maxBody_def max_def)
  have R: "value \<le> foldl max value (map m cs)" by (rule foldl_max_ge)
  have T: "foldl max value (map m (c # cs)) = max (m c) (foldl max value (map m cs))"
    by (simp add: foldl_max_max)
  show ?case
  proof (cases "beta \<le> ?alpha1")
    case True
    from max_step_break [OF Cons.prems(3,4) fs R True]
    have "failSoft alpha beta ?value1 (foldl max value (map m (c # cs)))" by (simp only: T)
    with body True show ?thesis by simp
  next
    case False
    have "\<exists>value' column' alpha' g'.
      forRange (maxBody board depth beta) cs (?value1, ?column1, ?alpha1, g1) = Inr (value', column', alpha', g')
      \<and> failSoft ?alpha1 beta value' (foldl max ?value1 (map m cs))
      \<and> column' \<in> insert ?column1 (set cs)"
    proof (rule Cons.IH)
      show "\<And>col a g. col \<in> set cs \<Longrightarrow> a < beta \<Longrightarrow>
        \<exists>c v g'. minimax (childBoard board col Computer) (depth - 1) a beta False g = Inr ((c, v), g')
          \<and> failSoft a beta v (m col)"
        using Cons.prems(1) by simp
      show "\<And>col. col \<in> set cs \<Longrightarrow> 0 \<le> col \<and> col < int Columns"
        using Cons.prems(2) by simp
      show "?value1 \<le> ?alpha1" by simp
      show "?alpha1 < beta" using False by (simp only: not_le)
    qed
    then obtain value' column' alpha' g' where
      run: "forRange (maxBody board depth beta) cs (?value1, ?column1, ?alpha1, g1) = Inr (value', column', alpha', g')"
      and fs': "failSoft ?alpha1 beta value' (foldl max ?value1 (map m cs))"
      and col': "column' \<in> insert ?column1 (set cs)" by blast
    from fs' have "failSoft ?alpha1 beta value' (max vc (foldl max value (map m cs)))"
      by (simp only: foldl_max_max)
    from max_step_continue [OF Cons.prems(3,4) fs R False this]
    have "failSoft alpha beta value' (foldl max value (map m (c # cs)))" by (simp only: T)
    moreover from col' have "column' \<in> insert column (set (c # cs))" by (auto split: if_splits)
    ultimately show ?thesis using body False run by simp
  qed
qed

lemma minLoop:
  assumes children: "\<And>col b g. col \<in> set cols \<Longrightarrow> alpha < b \<Longrightarrow>
      \<exists>c v g'. minimax (childBoard board col Player) (depth - 1) alpha b True g = Inr ((c, v), g')
        \<and> failSoft alpha b v (m col)"
    and inrange: "\<And>col. col \<in> set cols \<Longrightarrow> 0 \<le> col \<and> col < int Columns"
    and bounds: "beta \<le> value" "alpha < beta"
  shows "\<exists>value' column' beta' g'.
      forRange (minBody board depth alpha) cols (value, column, beta, g) = Inr (value', column', beta', g')
      \<and> failSoft alpha beta value' (foldl min value (map m cols))
      \<and> column' \<in> insert column (set cols)"
  using assms
proof (induction cols arbitrary: "value" column beta g)
  case Nil
  then show ?case by (simp add: failSoft_def)
next
  case (Cons c cs)
  from Cons.prems(1) [of c beta g] Cons.prems(4)
  obtain cc vc g1 where child:
    "minimax (childBoard board c Player) (depth - 1) alpha beta True g = Inr ((cc, vc), g1)"
    and fs: "failSoft alpha beta vc (m c)" by auto
  from Cons.prems(2) [of c] have drop: "dropPiece board c Player = Inr (childBoard board c Player)"
    by (simp add: dropPiece_inrange)
  let ?value1 = "min value vc"
  let ?column1 = "if vc < value then c else column"
  let ?beta1 = "min beta ?value1"
  have body: "minBody board depth alpha c (value, column, beta, g)
      = Inr ((?value1, ?column1, ?beta1, g1), ?beta1 \<le> alpha)"
    using drop child by (auto simp: minBody_def min_def)
  have R: "foldl min value (map m cs) \<le> value" by (rule foldl_min_le)
  have T: "foldl min value (map m (c # cs)) = min (m c) (foldl min value (map m cs))"
    by (simp add: foldl_min_min)
  show ?case
  proof (cases "?beta1 \<le> alpha")
    case True
    from min_step_break [OF Cons.prems(3,4) fs R True]
    have "failSoft alpha beta ?value1 (foldl min value (map m (c # cs)))" by (simp only: T)
    with body True show ?thesis by simp
  next
    case False
    have "\<exists>value' column' beta' g'.
      forRange (minBody board depth alpha) cs (?value1, ?column1, ?beta1, g1) = Inr (value', column', beta', g')
      \<and> failSoft alpha ?beta1 value' (foldl min ?value1 (map m cs))
      \<and> column' \<in> insert ?column1 (set cs)"
    proof (rule Cons.IH)
      show "\<And>col b g. col \<in> set cs \<Longrightarrow> alpha < b \<Longrightarrow>
        \<exists>c v g'. minimax (childBoard board col Player) (depth - 1) alpha b True g = Inr ((c, v), g')
          \<and> failSoft alpha b v (m col)"
        using Cons.prems(1) by simp
      show "\<And>col. col \<in> set cs \<Longrightarrow> 0 \<le> col \<and> col < int Columns"
        using Cons.prems(2) by simp
      show "?beta1 \<le> ?value1" by (rule min.cobounded2)
      show "alpha < ?beta1" using False by (simp only: not_le)
    qed
    then obtain value' column' beta' g' where
      run: "forRange (minBody board depth alpha) cs (?value1, ?column1, ?beta1, g1) = Inr (value', column', beta', g')"
      and fs': "failSoft alpha ?beta1 value' (foldl min ?value1 (map m cs))"
      and col': "column' \<in> insert ?column1 (set cs)" by blast
    from fs' have "failSoft alpha ?beta1 value' (min vc (foldl min value (map m cs)))"
      by (simp only: foldl_min_min)
    from min_step_continue [OF Cons.prems(3,4) fs R False this]
    have "failSoft alpha beta value' (foldl min value (map m (c # cs)))" by (simp only: T)
    moreover from col' have "column' \<in> insert column (set (c # cs))" by (auto split: if_splits)
    ultimately show ?thesis using body False run by simp
  qed
qed

lemma getValidColumns_nonempty:
  "\<not> isBoardFull board \<Longrightarrow> getValidColumns board \<noteq> []"
  by (simp add: isBoardFull_def getValidColumns_def list_ex_iff filter_empty_conv)

lemma Intn_nonempty:
  "xs \<noteq> [] \<Longrightarrow> Intn g (length xs) = Inr (shd g mod length xs, stl g)"
  by (simp add: Intn_def)

lemma minimax_failSoft:
  "alpha < beta \<Longrightarrow>
   \<exists>col v g'. minimax board depth alpha beta mp g = Inr ((col, v), g')
     \<and> failSoft alpha beta v (minimaxFull board depth mp)
     \<and> (if depth = 0 \<or> isTerminalNode board then col = -1 \<and> g' = g
        else col \<in> set (getValidColumns board))"
proof (induction "emptyCells board" arbitrary: board depth alpha beta mp g rule: less_induct)
  case less
  show ?case
  proof (cases "depth = 0 \<or> isTerminalNode board")
    case True
    then have "minimaxFull board depth mp = leafScore board"
      by (subst minimaxFull.simps) simp
    with True minimax_leaf [OF True, of alpha beta mp g] show ?thesis
      by (simp add: failSoft_def)
  next
    case False
    let ?vc = "getValidColumns board"
    from False have ne: "?vc \<noteq> []"
      by (simp add: getValidColumns_nonempty isTerminalNode_def)
    let ?i = "shd g mod length ?vc"
    from ne have i: "?vc ! ?i \<in> set ?vc" by simp
    have inrange: "\<And>col. col \<in> set ?vc \<Longrightarrow> 0 \<le> col \<and> col < int Columns"
      by (simp add: set_getValidColumns)
    show ?thesis
    proof (cases mp)
      case True
      let ?m = "\<lambda>col. minimaxFull (childBoard board col Computer) (depth - 1) False"
      have "\<exists>value' column' alpha' g'.
        forRange (maxBody board depth beta) ?vc (NegInf, ?vc ! ?i, alpha, stl g)
          = Inr (value', column', alpha', g')
        \<and> failSoft alpha beta value' (foldl max NegInf (map ?m ?vc))
        \<and> column' \<in> insert (?vc ! ?i) (set ?vc)"
      proof (rule maxLoop)
        fix col a g0
        assume "col \<in> set ?vc" "a < beta"
        then have "emptyCells (childBoard board col Computer) < emptyCells board"
          by (simp add: childBoard_emptyCells)
        from less.hyps [OF this \<open>a < beta\<close>, of "depth - 1" False g0]
        show "\<exists>c v g'. minimax (childBoard board col Computer) (depth - 1) a beta False g0
            = Inr ((c, v), g') \<and> failSoft a beta v (?m col)"
          by blast
      qed (use inrange less.prems in simp_all)
      then obtain value' column' alpha' g' where
        run: "forRange (maxBody board depth beta) ?vc (NegInf, ?vc ! ?i, alpha, stl g)
          = Inr (value', column', alpha', g')"
        and fs: "failSoft alpha beta value' (foldl max NegInf (map ?m ?vc))"
        and col: "column' \<in> insert (?vc ! ?i) (set ?vc)" by blast
      from False True have full: "minimaxFull board depth mp = foldl max NegInf (map ?m ?vc)"
        by (subst minimaxFull.simps) simp
      from run have "minimax board depth alpha beta True g = Inr ((column', value'), g')"
        by (simp add: minimax_max [OF False] Intn_nonempty [OF ne])
      with fs col i full True False show ?thesis by auto
    next
      case mpF: False
      let ?m = "\<lambda>col. minimaxFull (childBoard board col Player) (depth - 1) True"
      have "\<exists>value' column' beta' g'.
        forRange (minBody board depth alpha) ?vc (PosInf, ?vc ! ?i, beta, stl g)
          = Inr (value', column', beta', g')
        \<and> failSoft alpha beta value' (foldl min PosInf (map ?m ?vc))
        \<and> column' \<in> insert (?vc ! ?i) (set ?vc)"
      proof (rule minLoop)
        fix col b g0
        assume "col \<in> set ?vc" "alpha < b"
        then have "emptyCells (childBoard board col Player) < emptyCells board"
          by (simp add: childBoard_emptyCells)
        from less.hyps [OF this \<open>alpha < b\<close>, of "depth - 1" True g0]
        show "\<exists>c v g'. minimax (childBoard board col Player) (depth - 1) alpha b True g0
            = Inr ((c, v), g') \<and> failSoft alpha b v (?m col)"
          by blast
      qed (use inrange less.prems in simp_all)
      then obtain value' column' beta' g' where
        run: "forRange (minBody board depth alpha) ?vc (PosInf, ?vc ! ?i, beta, stl g)
          = Inr (value', column', beta', g')"
        and fs: "failSoft alpha beta value' (foldl min PosInf (map ?m ?vc))"
        and col: "column' \<in> insert (?vc ! ?i) (set ?vc)" by blast
      from False mpF have full: "minimaxFull board depth mp = foldl min PosInf (map ?m ?vc)"
        by (subst minimaxFull.simps) simp
      from run have "minimax board depth alpha beta False g = Inr ((column', value'), g')"
        by (simp add: minimax_min [OF False] Intn_nonempty [OF ne])
      with fs col i full mpF False show ?thesis by auto
    qed
  qed
qed

lemma failSoft_full_window: "failSoft NegInf PosInf v m \<Longrightarrow> v = m"
  unfolding failSoft_def by (cases v; cases m) (auto simp: less_score_def)

section \<open>The claims\<close>

text \<open>
  Claim C1 says that \<^verbatim>\<open>getComputerMove\<close> returns a valid column whenever some column is
  valid and the depth is positive. On \<open>playerWonBoard\<close>, where the Player has just
  completed four in the bottom row and all seven columns are valid, it returns the
  sentinel -1 at depth 5, the depth the game uses.
\<close>

theorem getComputerMove_counterexample:
  "getValidColumns playerWonBoard = [0, 1, 2, 3, 4, 5, 6]
   \<and> getComputerMove playerWonBoard 5 (sconst 0) = Inr (- 1)"
proof -
  have "isTerminalNode playerWonBoard"
    using playerWonBoard_facts by (simp add: isTerminalNode_def)
  then have "minimax playerWonBoard 5 NegInf PosInf True (sconst 0)
      = Inr ((-1, leafScore playerWonBoard), sconst 0)"
    by (simp add: minimax_leaf)
  then show ?thesis using playerWonBoard_facts by (simp add: getComputerMove_def)
qed

text \<open>
  Claim C1, amended. For every board with at least one valid column on which neither
  player has four in a row, every positive depth and every state of the random
  generator, \<^verbatim>\<open>getComputerMove\<close> returns without a panic a column index in 0..6 that is a
  member of \<^verbatim>\<open>getValidColumns\<close>.
\<close>

theorem getComputerMove_valid:
  assumes "getValidColumns board \<noteq> []" "0 < depth"
    and "\<not> checkWin board Player" "\<not> checkWin board Computer"
  shows "\<exists>col. getComputerMove board depth g = Inr col
           \<and> col \<in> set (getValidColumns board) \<and> 0 \<le> col \<and> col \<le> 6"
proof -
  from assms have nt: "\<not> (depth = 0 \<or> isTerminalNode board)"
    by (simp add: isTerminalNode_def isBoardFull_def getValidColumns_def list_ex_iff filter_empty_conv)
  from minimax_failSoft [of NegInf PosInf board depth True g] nt
  obtain col v g' where "minimax board depth NegInf PosInf True g = Inr ((col, v), g')"
    and "col \<in> set (getValidColumns board)" by auto
  moreover from this(2) have "0 \<le> col \<and> col \<le> 6" by (simp add: set_getValidColumns)
  ultimately show ?thesis by (simp add: getComputerMove_def)
qed

theorem getComputerMove_valid_witness:
  "getValidColumns emptyBoard \<noteq> [] \<and> (0::int) < 5
   \<and> \<not> checkWin emptyBoard Player \<and> \<not> checkWin emptyBoard Computer
   \<and> (\<exists>col. getComputerMove emptyBoard 5 (sconst 0) = Inr col
           \<and> col \<in> set (getValidColumns emptyBoard) \<and> 0 \<le> col \<and> col \<le> 6)"
  using getComputerMove_valid [of emptyBoard 5 "sconst 0"] emptyBoard_facts
  by simp

text \<open>
  Claim C2. For every board, every depth (also a negative one, where only a terminal
  board ends the search), both values of \<open>maximizingPlayer\<close> and every state of the
  random generator, \<^verbatim>\<open>minimax\<close> called with the window from minus infinity to plus
  infinity returns without a panic, and the score it returns is the score of the
  unpruned search \<open>minimaxFull\<close>.
\<close>

theorem alphabeta_equals_full_minimax:
  "\<exists>col g'. minimax board depth NegInf PosInf maximizingPlayer g
      = Inr ((col, minimaxFull board depth maximizingPlayer), g')"
  using minimax_failSoft [of NegInf PosInf board depth maximizingPlayer g]
  by (auto dest: failSoft_full_window)

theorem alphabeta_equals_full_minimax_witness:
  "\<exists>col g'. minimax fullColumnBoard 1 NegInf PosInf True (sconst 0) = Inr ((col, Fin 5), g')"
proof -
  have "minimaxFull fullColumnBoard 1 True = Fin 5" by code_simp
  with alphabeta_equals_full_minimax [of fullColumnBoard 1 True "sconst 0"] show ?thesis by simp
qed

text \<open>
  Claim C3. \<^verbatim>\<open>evaluateBoard\<close> is the sum, over the 69 segments of four cells (24
  horizontal, 21 vertical, 12 on each diagonal direction), of the segment's score for
  the Computer minus its score for the Player, where a segment scores 100 for a player
  with four of the player's cells, 10 with three of them and one Empty, 5 with two of
  them and two Empty, and 0 otherwise. A segment of four cells that holds a cell of
  another player scores 0.
\<close>

theorem evaluateBoard_segments:
  "evaluateBoard board
     = (\<Sum>segment\<leftarrow>segments. segmentScore (cellsOf board segment) Computer
                                - segmentScore (cellsOf board segment) Player)
   \<and> segments = horizontalSegments @ verticalSegments @ diagonalDownSegments @ diagonalUpSegments
   \<and> length horizontalSegments = 24 \<and> length verticalSegments = 21
   \<and> length diagonalDownSegments = 12 \<and> length diagonalUpSegments = 12
   \<and> length segments = 69
   \<and> (\<forall>cells player opponent.
        length cells = 4 \<and> player \<noteq> Empty \<and> opponent \<in> set cells \<and> opponent \<noteq> player
          \<and> opponent \<noteq> Empty \<longrightarrow> segmentScore cells player = 0)"
proof -
  have "evaluateBoard board
      = (\<Sum>segment\<leftarrow>segments. segmentScore (cellsOf board segment) Computer)
        - (\<Sum>segment\<leftarrow>segments. segmentScore (cellsOf board segment) Player)"
    by (simp add: evaluateBoard_def evaluateLines_segments evaluateSegment_segmentScore)
  then have "evaluateBoard board
     = (\<Sum>segment\<leftarrow>segments. segmentScore (cellsOf board segment) Computer
                                - segmentScore (cellsOf board segment) Player)"
    by (simp add: sum_list_subtractf)
  moreover have "\<forall>cells player opponent.
        length cells = 4 \<and> player \<noteq> Empty \<and> opponent \<in> set cells \<and> opponent \<noteq> player
          \<and> opponent \<noteq> Empty \<longrightarrow> segmentScore cells player = 0"
    using segmentScore_opponent by blast
  ultimately show ?thesis
    using length_segments by (simp only: segments_def simp_thms)
qed

theorem evaluateBoard_segments_witness:
  "evaluateBoard wonBoard = 85
   \<and> (\<Sum>segment\<leftarrow>segments. segmentScore (cellsOf wonBoard segment) Computer
                                - segmentScore (cellsOf wonBoard segment) Player) = 85
   \<and> length segments = 69
   \<and> segmentScore [Computer, Computer, Computer, Player] Computer = 0"
proof -
  have "evaluateBoard wonBoard = 85" by code_simp
  moreover have "length [Computer, Computer, Computer, Player] = 4 \<and> Computer \<noteq> Empty
    \<and> Player \<in> set [Computer, Computer, Computer, Player] \<and> Player \<noteq> Computer \<and> Player \<noteq> Empty"
    by simp
  ultimately show ?thesis
    using evaluateBoard_segments [of wonBoard] by metis
qed

text \<open>
  Claim C4. When the board is terminal or \<open>depth\<close> is 0, \<^verbatim>\<open>minimax\<close> returns the
  sentinel column -1, draws no random number, and scores the board plus infinity when
  the Computer has won (tested first), minus infinity when the Player has won, 0 when
  the board is full with no winner, and \<^verbatim>\<open>evaluateBoard\<close> otherwise, which is the case
  of depth 0 on a board that is not terminal.
\<close>

theorem minimax_terminal_or_cutoff:
  assumes "depth = 0 \<or> isTerminalNode board"
  shows "minimax board depth alpha beta maximizingPlayer g =
     Inr ((-1,
           if checkWin board Computer then PosInf
           else if checkWin board Player then NegInf
           else if isBoardFull board then Fin 0
           else Fin (evaluateBoard board)), g)"
  using assms by (subst minimax.simps) (auto simp: Let_def isTerminalNode_def)

theorem minimax_terminal_or_cutoff_witness:
  "(3 = (0::int) \<or> isTerminalNode wonBoard)
   \<and> minimax wonBoard 3 NegInf PosInf True (sconst 0) = Inr ((-1, PosInf), sconst 0)
   \<and> ((0::int) = 0 \<or> isTerminalNode emptyBoard)
   \<and> minimax emptyBoard 0 NegInf PosInf True (sconst 0) = Inr ((-1, Fin 0), sconst 0)"
proof -
  have t: "isTerminalNode wonBoard" using wonBoard_facts by (simp add: isTerminalNode_def)
  from minimax_terminal_or_cutoff [of 3 wonBoard NegInf PosInf True "sconst 0"] t
    minimax_terminal_or_cutoff [of 0 emptyBoard NegInf PosInf True "sconst 0"]
  show ?thesis using wonBoard_facts emptyBoard_facts by simp
qed

text \<open>
  Claim C5. For a column in 0..6 whose top cell is Empty and a player that is not the
  Empty value (the source passes \<open>Player\<close> or \<open>Computer\<close>), \<^verbatim>\<open>dropPiece\<close> returns a
  board that holds \<open>player\<close> at the lowest Empty row of the column and equals the input
  at every other cell; the number of cells that are not Empty grows by exactly one. The
  input board is a value: the function returns a new one and the argument is as before.
\<close>

theorem dropPiece_valid_column:
  assumes "0 \<le> col" "col < int Columns" "board 0 (nat col) = Empty" "player \<noteq> Empty"
  shows "\<exists>row newBoard.
      dropPiece board col player = Inr newBoard
      \<and> row < Rows \<and> board row (nat col) = Empty
      \<and> (\<forall>r. row < r \<and> r < Rows \<longrightarrow> board r (nat col) \<noteq> Empty)
      \<and> newBoard row (nat col) = player
      \<and> (\<forall>r c. (r, c) \<noteq> (row, nat col) \<longrightarrow> newBoard r c = board r c)
      \<and> nonEmptyCells newBoard = nonEmptyCells board + 1"
proof -
  from assms(1-3) have "col \<in> set (getValidColumns board)"
    by (simp add: set_getValidColumns)
  from dropPiece_valid [OF this, of player]
  obtain row where row: "row < Rows" "board row (nat col) = Empty"
    "\<forall>r'. row < r' \<and> r' < Rows \<longrightarrow> board r' (nat col) \<noteq> Empty"
    "dropPiece board col player = Inr (board(row := (board row)(nat col := player)))"
    by blast
  let ?new = "board(row := (board row)(nat col := player))"
  from assms(2) have "nat col < Columns" by simp
  with nonEmptyCells_update [of row "nat col" board player] row(1,2) assms(4)
  have "nonEmptyCells ?new = nonEmptyCells board + 1" by simp
  moreover have "?new row (nat col) = player" by simp
  moreover have "\<forall>r c. (r, c) \<noteq> (row, nat col) \<longrightarrow> ?new r c = board r c" by simp
  ultimately show ?thesis using row by blast
qed

theorem dropPiece_valid_column_witness:
  "\<exists>row newBoard.
      dropPiece fullColumnBoard 1 Computer = Inr newBoard
      \<and> row < Rows \<and> fullColumnBoard row (nat 1) = Empty
      \<and> (\<forall>r. row < r \<and> r < Rows \<longrightarrow> fullColumnBoard r (nat 1) \<noteq> Empty)
      \<and> newBoard row (nat 1) = Computer
      \<and> (\<forall>r c. (r, c) \<noteq> (row, nat 1) \<longrightarrow> newBoard r c = fullColumnBoard r c)
      \<and> nonEmptyCells newBoard = nonEmptyCells fullColumnBoard + 1"
proof -
  have "fullColumnBoard 0 (nat 1) = Empty"
    by (simp add: fullColumnBoard_def board_of_def)
  from dropPiece_valid_column [of 1 fullColumnBoard Computer, OF _ _ this]
  show ?thesis by simp
qed

text \<open>
  Claim C6 says that \<^verbatim>\<open>dropPiece\<close> on a full column raises an error. On the board
  \<open>fullColumnBoard\<close>, whose column 0 has no Empty cell, it returns the board and raises
  nothing.
\<close>

theorem dropPiece_full_column_counterexample:
  "fullColumnBoard 0 0 \<noteq> Empty \<and> fullColumnBoard 1 0 \<noteq> Empty \<and> fullColumnBoard 2 0 \<noteq> Empty
   \<and> fullColumnBoard 3 0 \<noteq> Empty \<and> fullColumnBoard 4 0 \<noteq> Empty \<and> fullColumnBoard 5 0 \<noteq> Empty
   \<and> dropPiece fullColumnBoard 0 Player = Inr fullColumnBoard"
proof -
  have cells: "fullColumnBoard 0 0 \<noteq> Empty \<and> fullColumnBoard 1 0 \<noteq> Empty \<and> fullColumnBoard 2 0 \<noteq> Empty
   \<and> fullColumnBoard 3 0 \<noteq> Empty \<and> fullColumnBoard 4 0 \<noteq> Empty \<and> fullColumnBoard 5 0 \<noteq> Empty"
    by (simp add: fullColumnBoard_def board_of_def)
  then have "\<forall>row<Rows. fullColumnBoard row 0 \<noteq> Empty"
    by (simp add: All_less_Suc numeral_nat)
  then have "dropPiece fullColumnBoard 0 Player = Inr fullColumnBoard"
    by (simp add: dropPiece_def dropPieceRows_full)
  with cells show ?thesis by simp
qed

text \<open>
  Claim C6, amended. \<^verbatim>\<open>dropPiece\<close> fails (with Go's index-out-of-range panic) if and
  only if the column index is outside 0..6; in particular a full column inside that
  range raises no error.
\<close>

theorem dropPiece_error_iff:
  "isl (dropPiece board col player) \<longleftrightarrow> col < 0 \<or> int Columns \<le> col"
  by (simp add: dropPiece_def)

theorem dropPiece_error_iff_witness:
  "isl (dropPiece emptyBoard 7 Player) \<and> \<not> isl (dropPiece fullColumnBoard 0 Player)"
  using dropPiece_error_iff [of emptyBoard 7 Player] dropPiece_error_iff [of fullColumnBoard 0 Player]
  by simp

text \<open>
  Claim C7. \<^verbatim>\<open>checkWin\<close> is true if and only if the board has four consecutive cells,
  all equal to \<open>player\<close>, along a row, along a column, along a diagonal going down to
  the right, or along a diagonal going up to the right.
\<close>

theorem checkWin_iff:
  "checkWin board player \<longleftrightarrow>
     (\<exists>row col. row < Rows \<and> col + 3 < Columns \<and> (\<forall>i<4. board row (col + i) = player))
   \<or> (\<exists>row col. row + 3 < Rows \<and> col < Columns \<and> (\<forall>i<4. board (row + i) col = player))
   \<or> (\<exists>row col. row + 3 < Rows \<and> col + 3 < Columns \<and> (\<forall>i<4. board (row + i) (col + i) = player))
   \<or> (\<exists>row col. row + 3 < Rows \<and> col + 3 < Columns \<and> (\<forall>i<4. board (row + 3 - i) (col + i) = player))"
proof -
  have h: "list_ex (\<lambda>row. list_ex (\<lambda>col.
        board row col = player \<and> board row (col + 1) = player \<and>
        board row (col + 2) = player \<and> board row (col + 3) = player) [0..<Columns - 3]) [0..<Rows]
      \<longleftrightarrow> (\<exists>row col. row < Rows \<and> col + 3 < Columns \<and> (\<forall>i<4. board row (col + i) = player))"
    by (simp add: list_ex_upt all_less_4)
  have v: "list_ex (\<lambda>col. list_ex (\<lambda>row.
        board row col = player \<and> board (row + 1) col = player \<and>
        board (row + 2) col = player \<and> board (row + 3) col = player) [0..<Rows - 3]) [0..<Columns]
      \<longleftrightarrow> (\<exists>row col. row + 3 < Rows \<and> col < Columns \<and> (\<forall>i<4. board (row + i) col = player))"
    by (simp add: list_ex_upt all_less_4) blast
  have d: "list_ex (\<lambda>row. list_ex (\<lambda>col.
        board row col = player \<and> board (row + 1) (col + 1) = player \<and>
        board (row + 2) (col + 2) = player \<and> board (row + 3) (col + 3) = player) [0..<Columns - 3])
        [0..<Rows - 3]
      \<longleftrightarrow> (\<exists>row col. row + 3 < Rows \<and> col + 3 < Columns \<and> (\<forall>i<4. board (row + i) (col + i) = player))"
    by (simp add: list_ex_upt all_less_4)
  have u: "list_ex (\<lambda>row. list_ex (\<lambda>col.
        board row col = player \<and> board (row - 1) (col + 1) = player \<and>
        board (row - 2) (col + 2) = player \<and> board (row - 3) (col + 3) = player) [0..<Columns - 3])
        [3..<Rows]
      \<longleftrightarrow> (\<exists>row col. row + 3 < Rows \<and> col + 3 < Columns \<and> (\<forall>i<4. board (row + 3 - i) (col + i) = player))"
    (is "?L \<longleftrightarrow> ?R")
  proof
    assume ?L
    then obtain row col where rc: "3 \<le> row" "row < Rows" "col < Columns - 3"
      "board row col = player" "board (row - 1) (col + 1) = player"
      "board (row - 2) (col + 2) = player" "board (row - 3) (col + 3) = player"
      unfolding list_ex_upt by blast
    then have "row - 3 + 3 = row" "row - 3 + 3 - 1 = row - 1" "row - 3 + 3 - 2 = row - 2"
      "row - 3 + 3 - 3 = row - 3" by simp_all
    with rc have "(row - 3) + 3 < Rows \<and> col + 3 < Columns
        \<and> (\<forall>i<4. board ((row - 3) + 3 - i) (col + i) = player)"
      by (simp add: all_less_4)
    then show ?R by blast
  next
    assume ?R
    then obtain row col where rc: "row + 3 < 6" "col + 3 < 7"
      "board (row + 3) col = player" "board (row + 3 - 1) (col + 1) = player"
      "board (row + 3 - 2) (col + 2) = player" "board (row + 3 - 3) (col + 3) = player"
      by (auto simp: all_less_4)
    then have "3 \<le> row + 3 \<and> row + 3 < Rows" "0 \<le> col \<and> col < Columns - 3" by auto
    with rc(3-6) show ?L unfolding list_ex_upt by blast
  qed
  show ?thesis unfolding checkWin_def h v d u ..
qed

theorem checkWin_iff_witness:
  "checkWin wonBoard Computer
   \<and> ((\<exists>row col. row < Rows \<and> col + 3 < Columns \<and> (\<forall>i<4. wonBoard row (col + i) = Computer))
   \<or> (\<exists>row col. row + 3 < Rows \<and> col < Columns \<and> (\<forall>i<4. wonBoard (row + i) col = Computer))
   \<or> (\<exists>row col. row + 3 < Rows \<and> col + 3 < Columns \<and> (\<forall>i<4. wonBoard (row + i) (col + i) = Computer))
   \<or> (\<exists>row col. row + 3 < Rows \<and> col + 3 < Columns \<and> (\<forall>i<4. wonBoard (row + 3 - i) (col + i) = Computer)))"
  using checkWin_iff [of wonBoard Computer] wonBoard_facts(1) by blast

text \<open>
  Claim C8. \<^verbatim>\<open>getValidColumns\<close> returns, in strictly ascending order, exactly the
  column indices 0..6 whose top cell (row 0) is Empty; the list is empty if and only if
  \<^verbatim>\<open>isBoardFull\<close> holds, and \<^verbatim>\<open>isBoardFull\<close> holds if and only if the top cell of
  every one of the seven columns is not Empty.
\<close>

theorem getValidColumns_spec:
  "sorted_wrt (<) (getValidColumns board)
   \<and> set (getValidColumns board) = {col. 0 \<le> col \<and> col < int Columns \<and> board 0 (nat col) = Empty}
   \<and> (getValidColumns board = [] \<longleftrightarrow> isBoardFull board)
   \<and> (isBoardFull board \<longleftrightarrow> (\<forall>col<Columns. board 0 col \<noteq> Empty))"
proof -
  have "sorted_wrt (<) (filter (\<lambda>col. board 0 col = Empty) [0..<Columns])"
    by (rule sorted_wrt_filter) (simp del: Columns_def)
  then have "sorted_wrt (<) (getValidColumns board)"
    unfolding getValidColumns_def by (simp add: sorted_wrt_map del: Columns_def)
  moreover have "getValidColumns board = [] \<longleftrightarrow> isBoardFull board"
    by (simp add: isBoardFull_def getValidColumns_def list_ex_iff filter_empty_conv)
  moreover have "isBoardFull board \<longleftrightarrow> (\<forall>col<Columns. board 0 col \<noteq> Empty)"
    by (auto simp: isBoardFull_def list_ex_iff)
  ultimately show ?thesis by (simp only: set_getValidColumns simp_thms)
qed

theorem getValidColumns_spec_witness:
  "getValidColumns fullColumnBoard = [1, 2, 3, 4, 5, 6]
   \<and> sorted_wrt (<) (getValidColumns fullColumnBoard)
   \<and> \<not> isBoardFull fullColumnBoard
   \<and> \<not> (\<forall>col<Columns. fullColumnBoard 0 col \<noteq> Empty)"
proof -
  have "getValidColumns fullColumnBoard = [1, 2, 3, 4, 5, 6]"
    by (simp add: getValidColumns_def fullColumnBoard_def board_of_def upt_rec)
  moreover from getValidColumns_spec [of fullColumnBoard]
  have "sorted_wrt (<) (getValidColumns fullColumnBoard)"
    and "getValidColumns fullColumnBoard = [] \<longleftrightarrow> isBoardFull fullColumnBoard"
    and "isBoardFull fullColumnBoard \<longleftrightarrow> (\<forall>col<Columns. fullColumnBoard 0 col \<noteq> Empty)"
    by blast+
  ultimately show ?thesis by simp
qed

text \<open>
  Claim C9. Exchanging every \<open>Player\<close> cell with \<open>Computer\<close> and every \<open>Computer\<close> cell
  with \<open>Player\<close> negates \<^verbatim>\<open>evaluateBoard\<close>.
\<close>

theorem evaluateBoard_swapPlayers:
  "evaluateBoard (swapPlayers board) = - evaluateBoard board"
  by (simp only: evaluateBoard_def evaluateLines_segments cellsOf_swapPlayers evaluateSegment_swap Let_def)

theorem evaluateBoard_swapPlayers_witness:
  "evaluateBoard (swapPlayers wonBoard) = - 85"
proof -
  have "evaluateBoard wonBoard = 85" by code_simp
  with evaluateBoard_swapPlayers [of wonBoard] show ?thesis by simp
qed

text \<open>
  Claim C10. When the column (an index in 0..6) has no Empty cell, \<^verbatim>\<open>dropPiece\<close>
  returns normally, with the board it was given: no cell is changed and nothing is
  raised.
\<close>

theorem dropPiece_full_column_unchanged:
  assumes "0 \<le> col" "col < int Columns" "\<forall>row<Rows. board row (nat col) \<noteq> Empty"
  shows "dropPiece board col player = Inr board"
  using assms by (simp add: dropPiece_def dropPieceRows_full)

theorem dropPiece_full_column_unchanged_witness:
  "fullColumnBoard 0 0 = Computer \<and> fullColumnBoard 1 0 = Player \<and> fullColumnBoard 2 0 = Computer
   \<and> fullColumnBoard 3 0 = Player \<and> fullColumnBoard 4 0 = Computer \<and> fullColumnBoard 5 0 = Player
   \<and> dropPiece fullColumnBoard 0 Computer = Inr fullColumnBoard"
proof -
  have cells: "fullColumnBoard 0 0 = Computer \<and> fullColumnBoard 1 0 = Player \<and> fullColumnBoard 2 0 = Computer
   \<and> fullColumnBoard 3 0 = Player \<and> fullColumnBoard 4 0 = Computer \<and> fullColumnBoard 5 0 = Player"
    by (simp add: fullColumnBoard_def board_of_def)
  then have "\<forall>row<Rows. fullColumnBoard row (nat 0) \<noteq> Empty"
    by (simp add: All_less_Suc numeral_nat)
  from dropPiece_full_column_unchanged [of 0 fullColumnBoard Computer, OF _ _ this] cells
  show ?thesis by simp
qed

end
